theory Spec2Isabelle
  imports Main "HOL-Library.Sublist"
begin

section \<open>Safe node removal: the info calls of the cluster reconciler\<close>

text \<open>
  A shallow embedding of \<^verbatim>\<open>controllers/aero_info_calls.go\<close>. The reconciler's
  collaborators (the Kubernetes client, the Aerospike management library, the methods
  of the reconciler that live in other files) are fields of the record
  \<open>SingleClusterReconciler\<close>: each field is the result the collaborator gives for the
  arguments the code passes. Every function that calls a collaborator also returns the
  list of calls it made, in the order it made them, so that a property such as
  "the loop stops polling" or "no quiesce is issued" is a property of that list.
\<close>

subsection \<open>Errors and reconcile results\<close>

text \<open>
  A Go \<^verbatim>\<open>error\<close> is its message. \<open>Panic\<close> is the run-time panic of a nil
  pointer dereference; it is not an error value in Go, it unwinds every caller, and the
  model passes it up unchanged through every caller.
\<close>

datatype error = Panic | Err string

text \<open>\<^verbatim>\<open>fmt.Errorf(prefix + "%v", err)\<close>: the message of \<open>err\<close> after the prefix.\<close>

fun Errorf :: "string \<Rightarrow> error \<Rightarrow> error" where
  "Errorf pfx Panic = Panic"
| "Errorf pfx (Err msg) = Err (pfx @ msg)"

text \<open>
  Modelled from the spec: the type \<^verbatim>\<open>reconcileResult\<close> and its constructors
  \<^verbatim>\<open>reconcileSuccess\<close>, \<^verbatim>\<open>reconcileError\<close> and \<^verbatim>\<open>reconcileRequeueAfter\<close> are
  declared outside this file. The spec gives the tagged result
  \<open>Success | Error cause | RequeueAfter seconds\<close>; the field \<^verbatim>\<open>isSuccess\<close> that the
  code reads holds for \<open>Success\<close> only.
\<close>

datatype reconcileResult = Success | Error error | RequeueAfter nat

definition reconcileSuccess :: reconcileResult where
  "reconcileSuccess = Success"

definition reconcileError :: "error \<Rightarrow> reconcileResult" where
  "reconcileError e = Error e"

definition reconcileRequeueAfter :: "nat \<Rightarrow> reconcileResult" where
  "reconcileRequeueAfter secs = RequeueAfter secs"

fun isSuccess :: "reconcileResult \<Rightarrow> bool" where
  "isSuccess Success = True"
| "isSuccess (Error e) = False"
| "isSuccess (RequeueAfter secs) = False"

subsection \<open>Pods and connections\<close>

text \<open>
  Of a \<^verbatim>\<open>corev1.Pod\<close> the code reads the name, the pod IP, and the two predicates
  \<^verbatim>\<open>utils.IsPodTerminating\<close> and \<^verbatim>\<open>utils.IsPodRunningAndReady\<close>, which are
  declared outside this file and are fields here.
\<close>

record pod =
  Name :: string
  PodIP :: string
  IsPodTerminating :: bool
  IsPodRunningAndReady :: bool

record ASConn =
  AerospikeHostName :: string
  AerospikePort :: int
  AerospikeTLSName :: string

text \<open>
  \<^verbatim>\<open>deployment.NewHostConn(log, host, asConn, nil)\<close>: the host label is
  \<^verbatim>\<open>fmt.Sprintf("%s:%d", name, port)\<close>, kept here as the pair it is printed from.
\<close>

record HostConn =
  hostLabel :: "string \<times> int"
  asConnOf :: ASConn

subsection \<open>The reconciler and its collaborators\<close>

text \<open>
  \<open>IsClusterAndStable\<close> takes the number of the attempt: the cluster changes between
  polls, so the answer is a function of the attempt. The other queries are asked once
  per argument within one call.
\<close>

record SingleClusterReconciler =
  GetServiceTLSNameAndPort :: "string \<times> int option"
  GetServicePort :: "int option"
  GetHeartbeatTLSNameAndPort :: "string \<times> int option"
  GetHeartbeatPort :: "int option"
  getFQDNForPod :: "string \<Rightarrow> string"
  getNamespaces :: "HostConn \<Rightarrow> error + string list"
  isNamespaceSCEnabled :: "HostConn \<Rightarrow> string \<Rightarrow> error + bool"
  isNodeInRoster :: "HostConn \<Rightarrow> string \<Rightarrow> error + bool"
  waitForAllSTSToBeReady :: "error option"
  getClusterPodList :: "error + pod list"
  IsClusterAndStable :: "nat \<Rightarrow> HostConn list \<Rightarrow> error + bool"
  InfoQuiesce :: "HostConn list \<Rightarrow> HostConn \<Rightarrow> string \<Rightarrow> error option"
  TipHostname :: "ASConn \<Rightarrow> string \<Rightarrow> int \<Rightarrow> error option"
  TipClearHostname :: "ASConn \<Rightarrow> string \<Rightarrow> int \<Rightarrow> error option"

text \<open>
  The calls a function makes on the cluster's members (info calls) and on the clock, in
  order. Reads of the Kubernetes API (the pod list, the readiness of the stateful sets)
  are not recorded.
\<close>

datatype event =
    Sleep nat
  | CallGetNamespaces
  | CallIsNamespaceSCEnabled string
  | CallIsNodeInRoster string
  | CallIsClusterAndStable nat
  | CallInfoQuiesce "HostConn list" HostConn string
  | CallTipHostname string int
  | CallTipClearHostname string int

text \<open>\<open>after evs p\<close>: the computation \<open>p\<close> run after the calls \<open>evs\<close> were made.\<close>

definition after :: "event list \<Rightarrow> 'a \<times> event list \<Rightarrow> 'a \<times> event list" where
  "after evs p = (fst p, evs @ snd p)"

subsection \<open>Connection factory\<close>

text \<open>
  \<^verbatim>\<open>newAsConn\<close> dereferences the service port; when neither the TLS service port nor
  the plain one is configured the pointer is nil and the dereference panics. The error
  it returns is always nil otherwise.
\<close>

definition newAsConn :: "SingleClusterReconciler \<Rightarrow> pod \<Rightarrow> error + ASConn" where
  "newAsConn r p =
     (let (tlsName, port) = GetServiceTLSNameAndPort r;
          port = (if tlsName = [] \<or> port = None then GetServicePort r else port)
      in case port of
           None \<Rightarrow> Inl Panic
         | Some pt \<Rightarrow>
             Inr \<lparr>AerospikeHostName = PodIP p, AerospikePort = pt, AerospikeTLSName = tlsName\<rparr>)"

definition newHostConn :: "SingleClusterReconciler \<Rightarrow> pod \<Rightarrow> error + HostConn" where
  "newHostConn r p =
     (case newAsConn r p of
        Inl err \<Rightarrow> Inl err
      | Inr asConn \<Rightarrow>
          Inr \<lparr>hostLabel = (AerospikeHostName asConn, AerospikePort asConn), asConnOf = asConn\<rparr>)"

subsection \<open>Stability monitor\<close>

definition maxRetry :: nat where
  "maxRetry = 12"

text \<open>\<^verbatim>\<open>time.Second * 10\<close>, in seconds.\<close>

definition retryInterval :: nat where
  "retryInterval = 10"

text \<open>
  The loop of \<^verbatim>\<open>waitForClusterStability\<close>, from the value \<open>idx\<close> of its counter.
  \<open>isStable\<close> is the variable declared before the loop. Inside the loop
  \<^verbatim>\<open>isStable, err := deployment.IsClusterAndStable(...)\<close> declares a new variable of
  the same name (\<open>isStable'\<close> here), so the outer one is never assigned. The result is
  \<open>Some res\<close> when the loop body returned \<open>res\<close>, and \<open>None\<close> when the loop was left
  by \<^verbatim>\<open>break\<close> or by its condition; the second component is the outer variable.
\<close>

function stabilityLoop ::
  "SingleClusterReconciler \<Rightarrow> HostConn list \<Rightarrow> nat \<Rightarrow> bool \<Rightarrow>
     (reconcileResult option \<times> bool) \<times> event list" where
  "stabilityLoop r allHostConns idx isStable =
     (if idx \<le> maxRetry then
        after [Sleep retryInterval, CallIsClusterAndStable idx]
          (case IsClusterAndStable r idx allHostConns of
             Inl err \<Rightarrow> ((Some (reconcileError err), isStable), [])
           | Inr isStable' \<Rightarrow>
               if isStable' then ((None, isStable), [])
               else stabilityLoop r allHostConns (idx + 1) isStable)
      else ((None, isStable), []))"
  by pat_completeness auto
termination
  by (relation "measure (\<lambda>(r, allHostConns, idx, isStable). maxRetry + 1 - idx)") auto

declare stabilityLoop.simps [simp del]

definition waitForClusterStability ::
  "SingleClusterReconciler \<Rightarrow> HostConn list \<Rightarrow> reconcileResult \<times> event list" where
  "waitForClusterStability r allHostConns =
     (case stabilityLoop r allHostConns 1 False of
        ((Some res, isStable), evs) \<Rightarrow> (res, evs)
      | ((None, isStable), evs) \<Rightarrow>
          if \<not> isStable then (reconcileRequeueAfter 60, evs)
          else (reconcileSuccess, evs))"

subsection \<open>Topology snapshot\<close>

text \<open>
  Modelled from the spec: \<^verbatim>\<open>utils.GetPod(name, pods)\<close> is declared outside this file.
  It looks a pod up by name in the list, and gives nil when no pod has the name; this is
  the spec's "in \<open>ignorable\<close>".
\<close>

fun GetPod :: "string \<Rightarrow> pod list \<Rightarrow> pod option" where
  "GetPod podName [] = None"
| "GetPod podName (p # pods) = (if podName = Name p then Some p else GetPod podName pods)"

text \<open>The loop over \<^verbatim>\<open>podList.Items\<close>; \<open>hostConns\<close> is the slice built so far.\<close>

fun hostConnLoop ::
  "SingleClusterReconciler \<Rightarrow> pod list \<Rightarrow> pod list \<Rightarrow> HostConn list \<Rightarrow> error + HostConn list" where
  "hostConnLoop r ignorablePods [] hostConns = Inr hostConns"
| "hostConnLoop r ignorablePods (p # items) hostConns =
     (if IsPodTerminating p then hostConnLoop r ignorablePods items hostConns
      else if \<not> IsPodRunningAndReady p then
        (case GetPod (Name p) ignorablePods of
           Some ignorablePod \<Rightarrow> hostConnLoop r ignorablePods items hostConns
         | None \<Rightarrow> Inl (Err (''pod '' @ Name p @ '' is not ready'')))
      else
        (case newHostConn r p of
           Inl err \<Rightarrow> Inl err
         | Inr hostConn \<Rightarrow> hostConnLoop r ignorablePods items (hostConns @ [hostConn])))"

definition newAllHostConnWithOption ::
  "SingleClusterReconciler \<Rightarrow> pod list \<Rightarrow> error + HostConn list" where
  "newAllHostConnWithOption r ignorablePods =
     (case getClusterPodList r of
        Inl err \<Rightarrow> Inl err
      | Inr items \<Rightarrow>
          if length items = 0 then Inl (Err ''pod list empty'')
          else hostConnLoop r ignorablePods items [])"

definition newAllHostConn :: "SingleClusterReconciler \<Rightarrow> error + HostConn list" where
  "newAllHostConn r = newAllHostConnWithOption r []"

subsection \<open>Quiesce\<close>

definition waitForNodeSafeStopReadyAndQuiesce ::
  "SingleClusterReconciler \<Rightarrow> pod \<Rightarrow> pod list \<Rightarrow> string \<Rightarrow> reconcileResult \<times> event list" where
  "waitForNodeSafeStopReadyAndQuiesce r p ignorablePods ns =
     (case waitForAllSTSToBeReady r of
        Some err \<Rightarrow>
          (reconcileError (Errorf ''failed to wait for cluster to be ready: '' err), [])
      | None \<Rightarrow>
          (case newAllHostConnWithOption r ignorablePods of
             Inl err \<Rightarrow>
               (reconcileError
                  (Errorf ''failed to get hostConn for aerospike cluster nodes: '' err), [])
           | Inr allHostConns \<Rightarrow>
               (case waitForClusterStability r allHostConns of
                  (res, evs) \<Rightarrow>
                    if \<not> isSuccess res then (res, evs)
                    else after evs
                      (case newHostConn r p of
                         Inl err \<Rightarrow> (reconcileError err, [])
                       | Inr selectedHostConn \<Rightarrow>
                           after [CallInfoQuiesce allHostConns selectedHostConn ns]
                             (case InfoQuiesce r allHostConns selectedHostConn ns of
                                Some err \<Rightarrow> (reconcileError err, [])
                              | None \<Rightarrow> (reconcileSuccess, []))))))"

subsection \<open>Drain-scope decision\<close>

text \<open>
  The loop over the namespaces in \<^verbatim>\<open>waitForNodeSafeStopReady\<close> (lines 57 to 83). The
  loop body leaves the function in three ways: with an error, with
  \<^verbatim>\<open>return r.waitForNodeSafeStopReadyAndQuiesce(policy, pod, ignorablePods, ns)\<close> for
  the namespace \<open>ns\<close> it is at, or not at all. \<open>selectDrainScope\<close> is that loop with
  the second exit returned as \<open>Inr (Some ns)\<close> and the end of the loop as \<open>Inr None\<close>;
  \<open>waitForNodeSafeStopReady\<close> below makes the call for the namespace returned.
\<close>

fun selectDrainScope ::
  "SingleClusterReconciler \<Rightarrow> HostConn \<Rightarrow> string list \<Rightarrow> (error + string option) \<times> event list" where
  "selectDrainScope r hostConn [] = (Inr None, [])"
| "selectDrainScope r hostConn (ns # namespaces) =
     after [CallIsNamespaceSCEnabled ns]
       (case isNamespaceSCEnabled r hostConn ns of
          Inl err \<Rightarrow> (Inl err, [])
        | Inr isEnabled \<Rightarrow>
            if \<not> isEnabled then (Inr (Some ns), [])
            else after [CallIsNodeInRoster ns]
              (case isNodeInRoster r hostConn ns of
                 Inl err \<Rightarrow> (Inl err, [])
               | Inr isInRoster \<Rightarrow>
                   if isInRoster then (Inr (Some ns), [])
                   else selectDrainScope r hostConn namespaces))"

definition waitForNodeSafeStopReady ::
  "SingleClusterReconciler \<Rightarrow> pod \<Rightarrow> pod list \<Rightarrow> reconcileResult \<times> event list" where
  "waitForNodeSafeStopReady r p ignorablePods =
     (case newHostConn r p of
        Inl err \<Rightarrow> (reconcileError err, [])
      | Inr hostConn \<Rightarrow>
          after [CallGetNamespaces]
            (case getNamespaces r hostConn of
               Inl err \<Rightarrow> (reconcileError err, [])
             | Inr namespaces \<Rightarrow>
                 (case selectDrainScope r hostConn namespaces of
                    (Inl err, evs) \<Rightarrow> (reconcileError err, evs)
                  | (Inr (Some ns), evs) \<Rightarrow>
                      after evs (waitForNodeSafeStopReadyAndQuiesce r p ignorablePods ns)
                  | (Inr None, evs) \<Rightarrow> (reconcileSuccess, evs))))"

subsection \<open>Membership hints\<close>

definition tipClearHostname ::
  "SingleClusterReconciler \<Rightarrow> pod \<Rightarrow> string \<Rightarrow> error option \<times> event list" where
  "tipClearHostname r p clearPodName =
     (case newAsConn r p of
        Inl err \<Rightarrow> (Some err, [])
      | Inr asConn \<Rightarrow>
          (case (case snd (GetHeartbeatTLSNameAndPort r) of
                   None \<Rightarrow> (None, [])
                 | Some heartbeatTlsPort \<Rightarrow>
                     (TipClearHostname r asConn (getFQDNForPod r clearPodName) heartbeatTlsPort,
                      [CallTipClearHostname (getFQDNForPod r clearPodName) heartbeatTlsPort])) of
             (Some err, evs) \<Rightarrow> (Some err, evs)
           | (None, evs) \<Rightarrow>
               after evs
                 (case GetHeartbeatPort r of
                    None \<Rightarrow> (None, [])
                  | Some heartbeatPort \<Rightarrow>
                      (TipClearHostname r asConn (getFQDNForPod r clearPodName) heartbeatPort,
                       [CallTipClearHostname (getFQDNForPod r clearPodName) heartbeatPort]))))"

definition tipHostname ::
  "SingleClusterReconciler \<Rightarrow> pod \<Rightarrow> pod \<Rightarrow> error option \<times> event list" where
  "tipHostname r p clearPod =
     (case newAsConn r p of
        Inl err \<Rightarrow> (Some err, [])
      | Inr asConn \<Rightarrow>
          (case (case snd (GetHeartbeatTLSNameAndPort r) of
                   None \<Rightarrow> (None, [])
                 | Some heartbeatTlsPort \<Rightarrow>
                     (TipHostname r asConn (getFQDNForPod r (Name clearPod)) heartbeatTlsPort,
                      [CallTipHostname (getFQDNForPod r (Name clearPod)) heartbeatTlsPort])) of
             (Some err, evs) \<Rightarrow> (Some err, evs)
           | (None, evs) \<Rightarrow>
               after evs
                 (case GetHeartbeatPort r of
                    None \<Rightarrow> (None, [])
                  | Some heartbeatPort \<Rightarrow>
                      (TipHostname r asConn (getFQDNForPod r (Name clearPod)) heartbeatPort,
                       [CallTipHostname (getFQDNForPod r (Name clearPod)) heartbeatPort]))))"

subsection \<open>Go's string functions\<close>

text \<open>
  A Go string is a sequence of bytes. \<^verbatim>\<open>strings.Index(s, sep)\<close> is the first position
  at which \<open>sep\<close> occurs in \<open>s\<close>, \<open>None\<close> for Go's \<open>-1\<close>.
\<close>

fun Index :: "string \<Rightarrow> string \<Rightarrow> nat option" where
  "Index [] sep = (if sep = [] then Some 0 else None)"
| "Index (c # cs) sep =
     (if prefix sep (c # cs) then Some 0 else map_option Suc (Index cs sep))"

text \<open>
  The size that \<^verbatim>\<open>utf8.DecodeRuneInString\<close> returns: the number of bytes of the first
  UTF-8 sequence of the string, and 1 for a byte that starts no valid sequence.
\<close>

definition inRange :: "nat \<Rightarrow> nat \<Rightarrow> char \<Rightarrow> bool" where
  "inRange lo hi c = (lo \<le> of_char c \<and> (of_char c :: nat) \<le> hi)"

fun DecodeRuneSize :: "string \<Rightarrow> nat" where
  "DecodeRuneSize [] = 0"
| "DecodeRuneSize (c0 # cs) =
     (let s0 = (of_char c0 :: nat) in
      if s0 < 0x80 then 1
      else if s0 < 0xC2 \<or> 0xF4 < s0 then 1
      else
        let sz = (if s0 < 0xE0 then 2 else if s0 < 0xF0 then 3 else 4 :: nat);
            lo = (if s0 = 0xE0 then 0xA0 else if s0 = 0xF0 then 0x90 else 0x80);
            hi = (if s0 = 0xED then 0x9F else if s0 = 0xF4 then 0x8F else 0xBF)
        in if length (c0 # cs) < sz then 1
           else if \<not> inRange lo hi (cs ! 0) then 1
           else if sz \<le> 2 then 2
           else if \<not> inRange 0x80 0xBF (cs ! 1) then 1
           else if sz \<le> 3 then 3
           else if \<not> inRange 0x80 0xBF (cs ! 2) then 1
           else 4)"

lemma DecodeRuneSize_pos: "s \<noteq> [] \<Longrightarrow> 0 < DecodeRuneSize s"
  by (cases s) (auto simp: Let_def)

text \<open>
  \<^verbatim>\<open>strings.Split(s, "")\<close> is \<^verbatim>\<open>explode(s, -1)\<close>: one string per UTF-8 sequence, an
  invalid byte sliced on its own. (Older Go releases put the encoding of U+FFFD in the
  place of an invalid byte; the two agree on every string that is valid UTF-8.)
\<close>

function explode :: "string \<Rightarrow> string list" where
  "explode s =
     (if s = [] then []
      else take (DecodeRuneSize s) s # explode (drop (DecodeRuneSize s) s))"
  by pat_completeness auto
termination
  by (relation "measure length") (auto simp: DecodeRuneSize_pos)

declare explode.simps [simp del]

lemma Index_le: "Index s sep = Some m \<Longrightarrow> m + length sep \<le> length s"
proof (induction s arbitrary: m)
  case Nil
  then show ?case by (simp split: if_splits)
next
  case (Cons c cs)
  show ?case
  proof (cases "prefix sep (c # cs)")
    case True
    with Cons.prems show ?thesis by (auto dest: prefix_length_le)
  next
    case False
    with Cons.prems obtain k where "Index cs sep = Some k" "m = Suc k" by auto
    with Cons.IH show ?thesis by auto
  qed
qed

text \<open>
  \<^verbatim>\<open>strings.Split(s, sep)\<close> for a separator that is not empty: the loop of
  \<^verbatim>\<open>genSplit\<close> cuts at the first occurrence of \<open>sep\<close> and goes on after it, until
  \<open>sep\<close> occurs no more (its bound \<^verbatim>\<open>Count(s, sep) + 1\<close> is the number of pieces this
  gives).
\<close>

function genSplit :: "string \<Rightarrow> string \<Rightarrow> string list" where
  "genSplit s sep =
     (if sep = [] then explode s
      else case Index s sep of
             None \<Rightarrow> [s]
           | Some m \<Rightarrow> take m s # genSplit (drop (m + length sep) s) sep)"
  by pat_completeness auto

termination
proof (relation "measure (\<lambda>(s, sep). length s)")
  show "wf (measure (\<lambda>(s, sep). length s))" by simp
next
  fix s sep :: string and m
  assume "sep \<noteq> []" "Index s sep = Some m"
  then show "((drop (m + length sep) s, sep), (s, sep)) \<in> measure (\<lambda>(s, sep). length s)"
    using Index_le [of s sep m] by (cases sep) auto
qed

declare genSplit.simps [simp del]

definition Split :: "string \<Rightarrow> string \<Rightarrow> string list" where
  "Split s sep = genSplit s sep"

text \<open>\<^verbatim>\<open>strings.Join(elems, sep)\<close>.\<close>

fun Join :: "string list \<Rightarrow> string \<Rightarrow> string" where
  "Join [] sep = []"
| "Join [a] sep = a"
| "Join (a # b # elems) sep = a @ sep @ Join (b # elems) sep"

subsection \<open>Parsing an info string\<close>

text \<open>
  The loop over the items, with the map built so far. \<^verbatim>\<open>kv[0]\<close> and \<^verbatim>\<open>kv[1:]\<close> are
  read only when \<open>kv\<close> has two elements or more. On an error Go returns a nil map with
  it; here the error alone.
\<close>

fun parseItems ::
  "string list \<Rightarrow> string \<Rightarrow> (string \<rightharpoonup> string) \<Rightarrow> error + (string \<rightharpoonup> string)" where
  "parseItems [] sep m = Inr m"
| "parseItems (item # items) sep m =
     (if item = [] then parseItems items sep m
      else
        let kv = Split item sep in
        if length kv < 2 then Inl (Err (''error parsing info item '' @ item))
        else parseItems items sep (m(hd kv \<mapsto> Join (tl kv) sep)))"

definition ParseInfoIntoMap ::
  "string \<Rightarrow> string \<Rightarrow> string \<Rightarrow> error + (string \<rightharpoonup> string)" where
  "ParseInfoIntoMap str del sep =
     (let m = Map.empty in
      if str = [] then Inr m
      else parseItems (Split str del) sep m)"

section \<open>Notions used by the properties\<close>

text \<open>The sleeps and polls of the attempts \<open>a\<close> to \<open>b - 1\<close> of the stability monitor.\<close>

definition polls :: "nat \<Rightarrow> nat \<Rightarrow> event list" where
  "polls a b = concat (map (\<lambda>i. [Sleep retryInterval, CallIsClusterAndStable i]) [a..<b])"

text \<open>
  The queries the drain-scope decision makes for namespaces it passes over: for each,
  the consistency mode and then the roster.
\<close>

definition scopeQueries :: "string list \<Rightarrow> event list" where
  "scopeQueries namespaces =
     concat (map (\<lambda>ns. [CallIsNamespaceSCEnabled ns, CallIsNodeInRoster ns]) namespaces)"

fun isQuiesce :: "event \<Rightarrow> bool" where
  "isQuiesce (CallInfoQuiesce allHostConns selectedHostConn ns) = True"
| "isQuiesce e = False"

text \<open>
  A quiesce issued for a namespace that is strongly consistent while the node of the
  connection \<open>hostConn\<close> is not known to be in its roster.
\<close>

fun quiesceOutsideRoster :: "SingleClusterReconciler \<Rightarrow> HostConn \<Rightarrow> event \<Rightarrow> bool" where
  "quiesceOutsideRoster r hostConn (CallInfoQuiesce allHostConns selectedHostConn ns) =
     (isNamespaceSCEnabled r hostConn ns = Inr True \<and> isNodeInRoster r hostConn ns \<noteq> Inr True)"
| "quiesceOutsideRoster r hostConn e = False"

text \<open>
  A pod that fails the topology snapshot: not terminating, not running and ready, and
  not among the ignorable pods. A live pod: not terminating, running and ready.
\<close>

definition notReadyPod :: "pod list \<Rightarrow> pod \<Rightarrow> bool" where
  "notReadyPod ignorablePods q =
     (\<not> IsPodTerminating q \<and> \<not> IsPodRunningAndReady q \<and> GetPod (Name q) ignorablePods = None)"

definition livePod :: "pod \<Rightarrow> bool" where
  "livePod q = (\<not> IsPodTerminating q \<and> IsPodRunningAndReady q)"

text \<open>
  The ports of the configured heartbeat channels, in the order the tip functions call
  them: the TLS channel, then the plain one.
\<close>

definition heartbeatPorts :: "SingleClusterReconciler \<Rightarrow> int list" where
  "heartbeatPorts r =
     (case snd (GetHeartbeatTLSNameAndPort r) of
        None \<Rightarrow> []
      | Some heartbeatTlsPort \<Rightarrow> [heartbeatTlsPort])
     @ (case GetHeartbeatPort r of None \<Rightarrow> [] | Some heartbeatPort \<Rightarrow> [heartbeatPort])"

text \<open>
  An item cut at the first occurrence of the separator: the key before it and the value,
  all of the item after it. \<open>itemError\<close> is the error for an item that cannot be cut.
\<close>

definition firstCut :: "string \<Rightarrow> string \<Rightarrow> (string \<times> string) option" where
  "firstCut sep item =
     (case Index item sep of
        None \<Rightarrow> None
      | Some m \<Rightarrow> Some (take m item, drop (m + length sep) item))"

definition itemError :: "string \<Rightarrow> error" where
  "itemError item = Err (''error parsing info item '' @ item)"

subsection \<open>An example cluster\<close>

text \<open>
  A cluster with three namespaces: \<open>test\<close> is strongly consistent and the node is not
  in its roster, \<open>bar\<close> is not strongly consistent, \<open>mem\<close> is strongly consistent
  and the node is in its roster; every other name is strongly consistent with the node
  outside its roster. Migrations never finish. Both heartbeat channels are configured.
  The theorems below are run on variants of it.
\<close>

definition exampleReconciler :: SingleClusterReconciler where
  "exampleReconciler =
     \<lparr>GetServiceTLSNameAndPort = ([], None),
      GetServicePort = Some 3000,
      GetHeartbeatTLSNameAndPort = (''hb.tls'', Some 3012),
      GetHeartbeatPort = Some 3002,
      getFQDNForPod = (\<lambda>podName. podName @ ''.aerocluster.svc''),
      getNamespaces = (\<lambda>hostConn. Inr [''test'', ''bar'', ''mem'']),
      isNamespaceSCEnabled = (\<lambda>hostConn ns. Inr (ns \<noteq> ''bar'')),
      isNodeInRoster = (\<lambda>hostConn ns. Inr (ns = ''mem'')),
      waitForAllSTSToBeReady = None,
      getClusterPodList = Inr [],
      IsClusterAndStable = (\<lambda>attempt allHostConns. Inr False),
      InfoQuiesce = (\<lambda>allHostConns selectedHostConn ns. None),
      TipHostname = (\<lambda>asConn host port. None),
      TipClearHostname = (\<lambda>asConn host port. None)\<rparr>"

definition examplePod :: "string \<Rightarrow> bool \<Rightarrow> bool \<Rightarrow> pod" where
  "examplePod podName terminating ready =
     \<lparr>Name = podName, PodIP = ''10.0.0.1'', IsPodTerminating = terminating,
      IsPodRunningAndReady = ready\<rparr>"

text \<open>The connection \<open>newHostConn\<close> builds for an example pod on the example cluster.\<close>

definition exampleASConn :: ASConn where
  "exampleASConn =
     \<lparr>AerospikeHostName = ''10.0.0.1'', AerospikePort = 3000, AerospikeTLSName = []\<rparr>"

definition exampleHostConn :: HostConn where
  "exampleHostConn = \<lparr>hostLabel = (''10.0.0.1'', 3000), asConnOf = exampleASConn\<rparr>"

section \<open>Properties\<close>

subsection \<open>Stability monitor\<close>

lemma stabilityLoop_unstable:
  assumes "\<And>i. idx \<le> i \<Longrightarrow> i \<le> maxRetry \<Longrightarrow> IsClusterAndStable r i conns = Inr False"
  shows "stabilityLoop r conns idx s = ((None, s), polls idx (Suc maxRetry))"
  using assms
proof (induction r conns idx s rule: stabilityLoop.induct)
  case (1 r conns idx s)
  show ?case
  proof (cases "idx \<le> maxRetry")
    case True
    have here: "IsClusterAndStable r idx conns = Inr False"
      using "1.prems" [of idx] True by simp
    have rest: "stabilityLoop r conns (idx + 1) s = ((None, s), polls (idx + 1) (Suc maxRetry))"
      using "1.IH" [OF True here] "1.prems" by simp
    have "[idx..<Suc maxRetry] = idx # [idx + 1..<Suc maxRetry]"
      using True by (simp add: upt_conv_Cons)
    then show ?thesis
      using True here rest
      by (simp add: stabilityLoop.simps [of r conns idx s] after_def polls_def)
  next
    case False
    then show ?thesis
      by (simp add: stabilityLoop.simps [of r conns idx s] polls_def)
  qed
qed

lemma stabilityLoop_stable_at:
  assumes "idx \<le> k" "k \<le> maxRetry"
    and "\<And>i. idx \<le> i \<Longrightarrow> i < k \<Longrightarrow> IsClusterAndStable r i conns = Inr False"
    and "IsClusterAndStable r k conns = Inr True"
  shows "stabilityLoop r conns idx s = ((None, s), polls idx (Suc k))"
  using assms
proof (induction r conns idx s rule: stabilityLoop.induct)
  case (1 r conns idx s)
  have le: "idx \<le> maxRetry" using "1.prems" by simp
  show ?case
  proof (cases "idx = k")
    case True
    then show ?thesis
      using le "1.prems"(4)
      by (simp add: stabilityLoop.simps [of r conns k s] after_def polls_def)
  next
    case False
    then have lt: "idx < k" using "1.prems"(1) by simp
    have here: "IsClusterAndStable r idx conns = Inr False"
      using "1.prems"(3) [of idx] lt by simp
    have rest: "stabilityLoop r conns (idx + 1) s = ((None, s), polls (idx + 1) (Suc k))"
      using "1.IH" [OF le here] "1.prems" lt by simp
    have "[idx..<Suc k] = idx # [idx + 1..<Suc k]"
      using lt by (simp add: upt_conv_Cons)
    then show ?thesis
      using le here rest
      by (simp add: stabilityLoop.simps [of r conns idx s] after_def polls_def)
  qed
qed

text \<open>
  The loop never assigns the variable that is tested after it, never returns a success
  from inside, and issues no quiesce.
\<close>

lemma stabilityLoop_outer_isStable:
  "snd (fst (stabilityLoop r allHostConns idx s)) = s
     \<and> fst (fst (stabilityLoop r allHostConns idx s)) \<noteq> Some Success
     \<and> \<not> list_ex isQuiesce (snd (stabilityLoop r allHostConns idx s))"
proof (induction r allHostConns idx s rule: stabilityLoop.induct)
  case (1 r allHostConns idx isStable)
  show ?case
  proof (cases "idx \<le> maxRetry")
    case True
    then show ?thesis using 1
      by (cases "IsClusterAndStable r idx allHostConns")
         (simp_all add: stabilityLoop.simps [of r allHostConns idx isStable] after_def
            reconcileError_def)
  next
    case False
    then show ?thesis
      by (simp add: stabilityLoop.simps [of r allHostConns idx isStable])
  qed
qed

lemma waitForClusterStability_not_success:
  "\<not> isSuccess (fst (waitForClusterStability r allHostConns))
     \<and> \<not> list_ex isQuiesce (snd (waitForClusterStability r allHostConns))"
proof -
  obtain res s evs where loop: "stabilityLoop r allHostConns 1 False = ((res, s), evs)"
    by (metis prod.collapse)
  with stabilityLoop_outer_isStable [of r allHostConns 1 False]
  have "s = False" "res \<noteq> Some Success" "\<not> list_ex isQuiesce evs"
    by simp_all
  then show ?thesis
    unfolding waitForClusterStability_def loop
    by (cases res; cases "the res") (simp_all add: reconcileRequeueAfter_def)
qed

text \<open>
  C2. The claim: when the cluster becomes stable on attempt \<open>k \<le> 12\<close> and no poll
  fails, \<open>waitForClusterStability\<close> stops polling at attempt \<open>k\<close> and returns a success.
  The code does stop at attempt \<open>k\<close>: the calls are the sleeps and polls of the
  attempts 1 to \<open>k\<close>. But it returns \<open>RequeueAfter 60\<close>, not a success: the test after
  the loop reads the outer \<open>isStable\<close>, which the loop never sets.
\<close>

theorem waitForClusterStability_stable_at_requeues:
  assumes "1 \<le> k" "k \<le> 12"
    and "\<And>i. 1 \<le> i \<Longrightarrow> i < k \<Longrightarrow> IsClusterAndStable r i allHostConns = Inr False"
    and "IsClusterAndStable r k allHostConns = Inr True"
  shows "waitForClusterStability r allHostConns =
           (RequeueAfter 60,
            concat (map (\<lambda>i. [Sleep 10, CallIsClusterAndStable i]) [1..<Suc k]))"
proof -
  have "stabilityLoop r allHostConns 1 False = ((None, False), polls 1 (Suc k))"
    using assms by (intro stabilityLoop_stable_at) (simp_all add: maxRetry_def)
  then show ?thesis
    by (simp add: waitForClusterStability_def reconcileRequeueAfter_def polls_def
        retryInterval_def)
qed

theorem waitForClusterStability_stable_at_requeues_witness:
  "waitForClusterStability
     (exampleReconciler\<lparr>IsClusterAndStable := \<lambda>attempt allHostConns. Inr True\<rparr>) [] =
     (RequeueAfter 60, [Sleep 10, CallIsClusterAndStable 1])"
  using waitForClusterStability_stable_at_requeues
    [of 1 "exampleReconciler\<lparr>IsClusterAndStable := \<lambda>attempt allHostConns. Inr True\<rparr>" "[]"]
  by simp

text \<open>
  C3. The claim: when some attempt reports the cluster stable, the outcome is not
  \<open>RequeueAfter\<close>. On a cluster that is stable at the third poll the code polls three
  times and returns \<open>RequeueAfter 60\<close>.
\<close>

theorem waitForClusterStability_requeues_though_stable:
  "waitForClusterStability
     (exampleReconciler\<lparr>IsClusterAndStable := \<lambda>attempt allHostConns. Inr (attempt = 3)\<rparr>) [] =
     (RequeueAfter 60,
      [Sleep 10, CallIsClusterAndStable 1, Sleep 10, CallIsClusterAndStable 2,
       Sleep 10, CallIsClusterAndStable 3])"
  by (simp add: waitForClusterStability_def stabilityLoop.simps maxRetry_def retryInterval_def
      after_def reconcileRequeueAfter_def)

text \<open>
  C4. When no poll of the attempts 1 to 12 reports the cluster stable and none fails,
  \<open>waitForClusterStability\<close> makes exactly the 12 polls, each right after a sleep of 10
  seconds (120 seconds of sleep in all), and returns \<open>RequeueAfter 60\<close>.
\<close>

theorem waitForClusterStability_budget_exhausted:
  assumes "\<And>i. 1 \<le> i \<Longrightarrow> i \<le> 12 \<Longrightarrow> IsClusterAndStable r i allHostConns = Inr False"
  shows "waitForClusterStability r allHostConns =
           (RequeueAfter 60,
            concat (map (\<lambda>i. [Sleep 10, CallIsClusterAndStable i]) [1..<13]))"
proof -
  have "stabilityLoop r allHostConns 1 False = ((None, False), polls 1 (Suc maxRetry))"
    using assms by (intro stabilityLoop_unstable) (simp_all add: maxRetry_def)
  then show ?thesis
    by (simp add: waitForClusterStability_def reconcileRequeueAfter_def polls_def
        maxRetry_def retryInterval_def)
qed

theorem waitForClusterStability_budget_exhausted_witness:
  "waitForClusterStability exampleReconciler [] =
     (RequeueAfter 60,
      [Sleep 10, CallIsClusterAndStable 1, Sleep 10, CallIsClusterAndStable 2,
       Sleep 10, CallIsClusterAndStable 3, Sleep 10, CallIsClusterAndStable 4,
       Sleep 10, CallIsClusterAndStable 5, Sleep 10, CallIsClusterAndStable 6,
       Sleep 10, CallIsClusterAndStable 7, Sleep 10, CallIsClusterAndStable 8,
       Sleep 10, CallIsClusterAndStable 9, Sleep 10, CallIsClusterAndStable 10,
       Sleep 10, CallIsClusterAndStable 11, Sleep 10, CallIsClusterAndStable 12])"
proof -
  have "[1..<13] = [1, 2, 3, 4, 5, 6, 7, 8, 9, 10, 11, 12 :: nat]"
    by (simp add: upt_rec)
  then show ?thesis
    using waitForClusterStability_budget_exhausted [of exampleReconciler "[]"]
    by (simp add: exampleReconciler_def)
qed

subsection \<open>Drain-scope decision\<close>

lemma selectDrainScope_skip:
  assumes "\<forall>m\<in>set pre. isNamespaceSCEnabled r hostConn m = Inr True
             \<and> isNodeInRoster r hostConn m = Inr False"
  shows "selectDrainScope r hostConn (pre @ rest) =
           after (scopeQueries pre) (selectDrainScope r hostConn rest)"
  using assms
proof (induction pre)
  case Nil
  then show ?case by (simp add: scopeQueries_def after_def)
next
  case (Cons m pre)
  then show ?case by (simp add: scopeQueries_def after_def)
qed

lemma selectDrainScope_roster:
  assumes "fst (selectDrainScope r hostConn namespaces) = Inr (Some ns)"
    and "isNamespaceSCEnabled r hostConn ns = Inr True"
  shows "isNodeInRoster r hostConn ns = Inr True"
  using assms
proof (induction namespaces)
  case Nil
  then show ?case by simp
next
  case (Cons n namespaces)
  show ?case
  proof (cases "isNamespaceSCEnabled r hostConn n")
    case (Inl err)
    with Cons.prems show ?thesis by (simp add: after_def)
  next
    case (Inr isEnabled)
    show ?thesis
    proof (cases isEnabled)
      case False
      with Inr Cons.prems show ?thesis by (simp add: after_def)
    next
      case True
      note sc = Inr True
      show ?thesis
      proof (cases "isNodeInRoster r hostConn n")
        case (Inl err)
        with sc Cons.prems show ?thesis by (simp add: after_def)
      next
        case (Inr isInRoster)
        with sc Cons.prems Cons.IH show ?thesis
          by (cases isInRoster) (simp_all add: after_def)
      qed
    qed
  qed
qed

text \<open>
  Whatever the cluster answers, \<open>waitForNodeSafeStopReady\<close> issues no quiesce: the
  quiesce comes after \<open>waitForClusterStability\<close>, which never returns a success.
\<close>

lemma waitForNodeSafeStopReadyAndQuiesce_no_quiesce:
  "\<not> list_ex isQuiesce (snd (waitForNodeSafeStopReadyAndQuiesce r p ignorablePods ns))"
proof -
  have "\<not> isSuccess res \<and> \<not> list_ex isQuiesce evs"
    if "waitForClusterStability r allHostConns = (res, evs)" for allHostConns res evs
    using that waitForClusterStability_not_success [of r allHostConns] by simp
  then show ?thesis
    by (auto simp: waitForNodeSafeStopReadyAndQuiesce_def
        split: option.splits sum.splits prod.splits)
qed

lemma selectDrainScope_no_quiesce:
  "\<not> list_ex isQuiesce (snd (selectDrainScope r hostConn namespaces))"
  by (induction namespaces) (auto simp: after_def split: sum.splits)

lemma waitForNodeSafeStopReady_no_quiesce:
  "\<not> list_ex isQuiesce (snd (waitForNodeSafeStopReady r p ignorablePods))"
proof -
  have "\<not> list_ex isQuiesce evs"
    if "selectDrainScope r hostConn namespaces = (res, evs)" for hostConn namespaces res evs
    using that selectDrainScope_no_quiesce [of r hostConn namespaces] by simp
  then show ?thesis
    using waitForNodeSafeStopReadyAndQuiesce_no_quiesce [of r p ignorablePods]
    by (auto simp: waitForNodeSafeStopReady_def after_def
        split: option.splits sum.splits prod.splits)
qed

text \<open>
  A quiesce that \<open>waitForNodeSafeStopReadyAndQuiesce\<close> issues is for the namespace
  it was called with; this does not depend on what the stability monitor returns.
\<close>

lemma quiesceOutsideRoster_isQuiesce: "quiesceOutsideRoster r hostConn e \<Longrightarrow> isQuiesce e"
  by (cases e) simp_all

lemma waitForNodeSafeStopReadyAndQuiesce_scope:
  assumes "e \<in> set (snd (waitForNodeSafeStopReadyAndQuiesce r p ignorablePods ns))"
    and "isQuiesce e"
  shows "\<exists>allHostConns selectedHostConn. e = CallInfoQuiesce allHostConns selectedHostConn ns"
proof -
  have stab: False
    if "waitForClusterStability r allHostConns = (res, evs)" "e \<in> set evs"
    for allHostConns res evs
    using that assms(2) waitForClusterStability_not_success [of r allHostConns]
    by (auto simp: list_ex_iff)
  show ?thesis
    using assms
    by (auto simp: waitForNodeSafeStopReadyAndQuiesce_def after_def
        split: option.splits sum.splits prod.splits if_splits dest: stab)
qed

lemma waitForNodeSafeStopReady_quiesce_in_roster:
  assumes "newHostConn r p = Inr hostConn"
  shows "\<not> list_ex (quiesceOutsideRoster r hostConn)
           (snd (waitForNodeSafeStopReady r p ignorablePods))"
proof (cases "getNamespaces r hostConn")
  case (Inl err)
  with assms show ?thesis
    by (simp add: waitForNodeSafeStopReady_def after_def)
next
  case (Inr namespaces)
  obtain res evs where sel: "selectDrainScope r hostConn namespaces = (res, evs)"
    by (cases "selectDrainScope r hostConn namespaces") auto
  have evs: "\<not> quiesceOutsideRoster r hostConn e" if "e \<in> set evs" for e
    using that sel selectDrainScope_no_quiesce [of r hostConn namespaces]
      quiesceOutsideRoster_isQuiesce [of r hostConn e]
    by (auto simp: list_ex_iff)
  show ?thesis
  proof (cases res)
    case (Inl err)
    with assms Inr sel evs show ?thesis
      by (auto simp: waitForNodeSafeStopReady_def after_def list_ex_iff)
  next
    case scope: (Inr scope)
    show ?thesis
    proof (cases scope)
      case None
      with assms Inr sel evs scope show ?thesis
        by (auto simp: waitForNodeSafeStopReady_def after_def list_ex_iff)
    next
      case (Some ns)
      have roster: "isNodeInRoster r hostConn ns = Inr True"
        if "isNamespaceSCEnabled r hostConn ns = Inr True"
        using selectDrainScope_roster [of r hostConn namespaces ns] sel scope Some that
        by simp
      have quiesce: "\<not> quiesceOutsideRoster r hostConn e"
        if mem: "e \<in> set (snd (waitForNodeSafeStopReadyAndQuiesce r p ignorablePods ns))"
        for e
      proof
        assume bad: "quiesceOutsideRoster r hostConn e"
        then have "isQuiesce e" by (rule quiesceOutsideRoster_isQuiesce)
        then obtain allHostConns selectedHostConn
          where "e = CallInfoQuiesce allHostConns selectedHostConn ns"
          using waitForNodeSafeStopReadyAndQuiesce_scope [OF mem] by blast
        with bad roster show False by simp
      qed
      have "snd (waitForNodeSafeStopReady r p ignorablePods) =
              CallGetNamespaces # evs
                @ snd (waitForNodeSafeStopReadyAndQuiesce r p ignorablePods ns)"
        using assms Inr sel scope Some
        by (simp add: waitForNodeSafeStopReady_def after_def)
      with evs quiesce show ?thesis
        by (auto simp: list_ex_iff)
    qed
  qed
qed

text \<open>
  C1. When the decision in \<open>waitForNodeSafeStopReady\<close> selects the namespace \<open>ns\<close>,
  the function goes on with \<open>waitForNodeSafeStopReadyAndQuiesce\<close> for \<open>ns\<close>, and if
  \<open>ns\<close> is strongly consistent then the node is in the roster of \<open>ns\<close>. On every run,
  whatever is selected: no quiesce is issued for a namespace that is strongly consistent
  with the node outside its roster. When the connection to the node cannot be built,
  nothing is called at all.
\<close>

theorem waitForNodeSafeStopReady_roster_safe:
  "(newHostConn r p = Inr hostConn \<and> getNamespaces r hostConn = Inr namespaces
      \<and> selectDrainScope r hostConn namespaces = (Inr (Some ns), evs) \<longrightarrow>
        waitForNodeSafeStopReady r p ignorablePods =
          after (CallGetNamespaces # evs)
            (waitForNodeSafeStopReadyAndQuiesce r p ignorablePods ns)
        \<and> (isNamespaceSCEnabled r hostConn ns = Inr True \<longrightarrow>
              isNodeInRoster r hostConn ns = Inr True))
   \<and> (newHostConn r p = Inr hostConn \<longrightarrow>
        \<not> list_ex (quiesceOutsideRoster r hostConn)
            (snd (waitForNodeSafeStopReady r p ignorablePods)))
   \<and> (newHostConn r p = Inl err \<longrightarrow>
        snd (waitForNodeSafeStopReady r p ignorablePods) = [])"
proof -
  have "waitForNodeSafeStopReady r p ignorablePods =
          after (CallGetNamespaces # evs)
            (waitForNodeSafeStopReadyAndQuiesce r p ignorablePods ns)"
    if "newHostConn r p = Inr hostConn" "getNamespaces r hostConn = Inr namespaces"
      "selectDrainScope r hostConn namespaces = (Inr (Some ns), evs)"
    using that by (simp add: waitForNodeSafeStopReady_def after_def)
  moreover have "isNodeInRoster r hostConn ns = Inr True"
    if "selectDrainScope r hostConn namespaces = (Inr (Some ns), evs)"
      "isNamespaceSCEnabled r hostConn ns = Inr True"
    using selectDrainScope_roster [of r hostConn namespaces ns] that by simp
  moreover have "\<not> list_ex (quiesceOutsideRoster r hostConn)
      (snd (waitForNodeSafeStopReady r p ignorablePods))"
    if "newHostConn r p = Inr hostConn"
    using that by (rule waitForNodeSafeStopReady_quiesce_in_roster)
  moreover have "snd (waitForNodeSafeStopReady r p ignorablePods) = []"
    if "newHostConn r p = Inl err"
    using that by (simp add: waitForNodeSafeStopReady_def)
  ultimately show ?thesis by blast
qed

theorem waitForNodeSafeStopReady_roster_safe_witness:
  "waitForNodeSafeStopReady
     (exampleReconciler\<lparr>getNamespaces := \<lambda>hostConn. Inr [''test'', ''mem'']\<rparr>)
     (examplePod ''aerocluster-0-0'' False True) [] =
     after
       [CallGetNamespaces, CallIsNamespaceSCEnabled ''test'', CallIsNodeInRoster ''test'',
        CallIsNamespaceSCEnabled ''mem'', CallIsNodeInRoster ''mem'']
       (waitForNodeSafeStopReadyAndQuiesce
          (exampleReconciler\<lparr>getNamespaces := \<lambda>hostConn. Inr [''test'', ''mem'']\<rparr>)
          (examplePod ''aerocluster-0-0'' False True) [] ''mem'')
   \<and> isNamespaceSCEnabled
       (exampleReconciler\<lparr>getNamespaces := \<lambda>hostConn. Inr [''test'', ''mem'']\<rparr>)
       exampleHostConn ''mem'' = Inr True
   \<and> isNodeInRoster
       (exampleReconciler\<lparr>getNamespaces := \<lambda>hostConn. Inr [''test'', ''mem'']\<rparr>)
       exampleHostConn ''mem'' = Inr True
   \<and> \<not> list_ex
         (quiesceOutsideRoster
            (exampleReconciler\<lparr>getNamespaces := \<lambda>hostConn. Inr [''test'', ''mem'']\<rparr>)
            exampleHostConn)
         (snd (waitForNodeSafeStopReady
            (exampleReconciler\<lparr>getNamespaces := \<lambda>hostConn. Inr [''test'', ''mem'']\<rparr>)
            (examplePod ''aerocluster-0-0'' False True) []))
   \<and> snd (waitForNodeSafeStopReady (exampleReconciler\<lparr>GetServicePort := None\<rparr>)
       (examplePod ''aerocluster-0-0'' False True) []) = []"
proof -
  let ?r = "exampleReconciler\<lparr>getNamespaces := \<lambda>hostConn. Inr [''test'', ''mem'']\<rparr>"
  let ?p = "examplePod ''aerocluster-0-0'' False True"
  let ?evs = "[CallIsNamespaceSCEnabled ''test'', CallIsNodeInRoster ''test'',
               CallIsNamespaceSCEnabled ''mem'', CallIsNodeInRoster ''mem'']"
  have conn: "newHostConn ?r ?p = Inr exampleHostConn"
    by (simp add: exampleReconciler_def examplePod_def exampleHostConn_def exampleASConn_def
        newHostConn_def newAsConn_def)
  have noconn: "newHostConn (exampleReconciler\<lparr>GetServicePort := None\<rparr>) ?p = Inl Panic"
    by (simp add: exampleReconciler_def newHostConn_def newAsConn_def)
  have listing: "getNamespaces ?r exampleHostConn = Inr [''test'', ''mem'']"
    by simp
  have sel: "selectDrainScope ?r exampleHostConn [''test'', ''mem''] = (Inr (Some ''mem''), ?evs)"
    by (simp add: exampleReconciler_def after_def)
  have sc: "isNamespaceSCEnabled ?r exampleHostConn ''mem'' = Inr True"
    by (simp add: exampleReconciler_def)
  have selected: "waitForNodeSafeStopReady ?r ?p [] =
      after (CallGetNamespaces # ?evs) (waitForNodeSafeStopReadyAndQuiesce ?r ?p [] ''mem'')
      \<and> (isNamespaceSCEnabled ?r exampleHostConn ''mem'' = Inr True \<longrightarrow>
            isNodeInRoster ?r exampleHostConn ''mem'' = Inr True)"
    using waitForNodeSafeStopReady_roster_safe
        [of ?r ?p exampleHostConn "[''test'', ''mem'']" "''mem''" ?evs "[]"]
      conn listing sel
    by blast
  have quiesce: "\<not> list_ex (quiesceOutsideRoster ?r exampleHostConn)
      (snd (waitForNodeSafeStopReady ?r ?p []))"
    by (rule waitForNodeSafeStopReady_roster_safe [THEN conjunct2, THEN conjunct1, THEN mp])
       (rule conn)
  have unbuilt: "snd (waitForNodeSafeStopReady (exampleReconciler\<lparr>GetServicePort := None\<rparr>)
      ?p []) = []"
    using waitForNodeSafeStopReady_roster_safe
        [of "exampleReconciler\<lparr>GetServicePort := None\<rparr>" ?p exampleHostConn "[]" "[]" "[]"
            "[]" Panic]
      noconn
    by blast
  from selected sc have roster: "isNodeInRoster ?r exampleHostConn ''mem'' = Inr True"
    by blast
  from selected have run: "waitForNodeSafeStopReady ?r ?p [] =
      after (CallGetNamespaces # ?evs) (waitForNodeSafeStopReadyAndQuiesce ?r ?p [] ''mem'')"
    by (rule conjunct1)
  show ?thesis
    by (intro conjI run sc roster quiesce unbuilt)
qed



text \<open>
  C6. When every listed namespace is strongly consistent and the node is in no roster,
  \<open>waitForNodeSafeStopReady\<close> returns a success after the listing and the two queries
  per namespace, and issues no quiesce.
\<close>

theorem waitForNodeSafeStopReady_no_scope:
  assumes "newHostConn r p = Inr hostConn"
    and "getNamespaces r hostConn = Inr namespaces"
    and "\<forall>ns\<in>set namespaces. isNamespaceSCEnabled r hostConn ns = Inr True
             \<and> isNodeInRoster r hostConn ns = Inr False"
  shows "waitForNodeSafeStopReady r p ignorablePods =
           (Success, CallGetNamespaces # scopeQueries namespaces)
    \<and> \<not> list_ex isQuiesce (snd (waitForNodeSafeStopReady r p ignorablePods))"
proof -
  have "selectDrainScope r hostConn (namespaces @ []) =
          after (scopeQueries namespaces) (selectDrainScope r hostConn [])"
    using assms(3) by (rule selectDrainScope_skip)
  then have "selectDrainScope r hostConn namespaces = (Inr None, scopeQueries namespaces)"
    by (simp add: after_def)
  then have res: "waitForNodeSafeStopReady r p ignorablePods =
           (Success, CallGetNamespaces # scopeQueries namespaces)"
    using assms(1,2) by (simp add: waitForNodeSafeStopReady_def after_def reconcileSuccess_def)
  have "\<not> list_ex isQuiesce (scopeQueries namespaces)"
    by (induction namespaces) (simp_all add: scopeQueries_def)
  with res show ?thesis by simp
qed

theorem waitForNodeSafeStopReady_no_scope_witness:
  "waitForNodeSafeStopReady
     (exampleReconciler\<lparr>getNamespaces := \<lambda>hostConn. Inr [''test'', ''prod'']\<rparr>)
     (examplePod ''aerocluster-0-0'' False True) [] =
     (Success,
      [CallGetNamespaces, CallIsNamespaceSCEnabled ''test'', CallIsNodeInRoster ''test'',
       CallIsNamespaceSCEnabled ''prod'', CallIsNodeInRoster ''prod''])"
  using waitForNodeSafeStopReady_no_scope
    [of "exampleReconciler\<lparr>getNamespaces := \<lambda>hostConn. Inr [''test'', ''prod'']\<rparr>"
        "examplePod ''aerocluster-0-0'' False True" exampleHostConn "[''test'', ''prod'']" "[]"]
  by (simp add: exampleReconciler_def examplePod_def exampleHostConn_def exampleASConn_def
      newHostConn_def newAsConn_def scopeQueries_def)

subsection \<open>Topology snapshot\<close>

lemma hostConnLoop_eq:
  assumes "\<forall>q\<in>set items. newHostConn r q = Inr (conn q)"
  shows "hostConnLoop r ignorablePods items hostConns =
           (case find (notReadyPod ignorablePods) items of
              Some q \<Rightarrow> Inl (Err (''pod '' @ Name q @ '' is not ready''))
            | None \<Rightarrow> Inr (hostConns @ map conn (filter livePod items)))"
  using assms
proof (induction items arbitrary: hostConns)
  case Nil
  then show ?case by simp
next
  case (Cons q items)
  then show ?case
    by (auto simp: notReadyPod_def livePod_def split: option.splits)
qed

lemma hostConnLoop_all_skipped:
  assumes "\<forall>q\<in>set items. IsPodTerminating q
             \<or> (\<not> IsPodRunningAndReady q \<and> GetPod (Name q) ignorablePods \<noteq> None)"
  shows "hostConnLoop r ignorablePods items hostConns = Inr hostConns"
  using assms by (induction items) auto

text \<open>
  C7. On a pod list that is not empty, with connections that can be built: if some pod
  is not terminating, not running and ready, and not ignorable, the call fails with
  "pod ... is not ready" for the first such pod and returns no connections. Otherwise it
  returns the connections of the pods that are not terminating and are running and
  ready, in order: terminating pods and ignorable pods that are not ready are left out
  without an error.
\<close>

theorem newAllHostConnWithOption_not_ready:
  assumes "getClusterPodList r = Inr items" and "items \<noteq> []"
    and "\<forall>q\<in>set items. newHostConn r q = Inr (conn q)"
  shows "newAllHostConnWithOption r ignorablePods =
           (case find (notReadyPod ignorablePods) items of
              Some q \<Rightarrow> Inl (Err (''pod '' @ Name q @ '' is not ready''))
            | None \<Rightarrow> Inr (map conn (filter livePod items)))"
proof -
  have "hostConnLoop r ignorablePods items [] =
          (case find (notReadyPod ignorablePods) items of
             Some q \<Rightarrow> Inl (Err (''pod '' @ Name q @ '' is not ready''))
           | None \<Rightarrow> Inr (map conn (filter livePod items)))"
    using hostConnLoop_eq [OF assms(3), of ignorablePods "[]"]
    by (simp split: option.splits)
  then show ?thesis
    using assms(1,2) by (simp add: newAllHostConnWithOption_def)
qed

theorem newAllHostConnWithOption_not_ready_witness:
  "newAllHostConnWithOption
     (exampleReconciler\<lparr>getClusterPodList :=
        Inr [examplePod ''aerocluster-0-0'' True False, examplePod ''aerocluster-0-1'' False False,
             examplePod ''aerocluster-0-2'' False True]\<rparr>)
     [examplePod ''aerocluster-0-1'' False False] = Inr [exampleHostConn]
   \<and> newAllHostConnWithOption
     (exampleReconciler\<lparr>getClusterPodList :=
        Inr [examplePod ''aerocluster-0-0'' True False, examplePod ''aerocluster-0-1'' False False,
             examplePod ''aerocluster-0-2'' False True]\<rparr>)
     [] = Inl (Err ''pod aerocluster-0-1 is not ready'')"
  using newAllHostConnWithOption_not_ready
      [of "exampleReconciler\<lparr>getClusterPodList :=
             Inr [examplePod ''aerocluster-0-0'' True False,
                  examplePod ''aerocluster-0-1'' False False,
                  examplePod ''aerocluster-0-2'' False True]\<rparr>"
          "[examplePod ''aerocluster-0-0'' True False, examplePod ''aerocluster-0-1'' False False,
            examplePod ''aerocluster-0-2'' False True]"
          "\<lambda>q. exampleHostConn" "[examplePod ''aerocluster-0-1'' False False]"]
    newAllHostConnWithOption_not_ready
      [of "exampleReconciler\<lparr>getClusterPodList :=
             Inr [examplePod ''aerocluster-0-0'' True False,
                  examplePod ''aerocluster-0-1'' False False,
                  examplePod ''aerocluster-0-2'' False True]\<rparr>"
          "[examplePod ''aerocluster-0-0'' True False, examplePod ''aerocluster-0-1'' False False,
            examplePod ''aerocluster-0-2'' False True]"
          "\<lambda>q. exampleHostConn" "[]"]
  by (simp add: exampleReconciler_def examplePod_def exampleHostConn_def exampleASConn_def
      newHostConn_def newAsConn_def notReadyPod_def livePod_def)

text \<open>
  C8. The claim: the call fails whenever the connection set is empty after the
  filtering. The code tests the pod list before the loop, not the connections after
  it: a list of one terminating pod gives an empty connection set and no error.
\<close>

theorem newAllHostConnWithOption_empty_result:
  "newAllHostConnWithOption
     (exampleReconciler\<lparr>getClusterPodList := Inr [examplePod ''aerocluster-0-0'' True False]\<rparr>)
     [] = Inr []"
  by (simp add: newAllHostConnWithOption_def examplePod_def)

text \<open>
  C8, amended. The call fails with "pod list empty" when the pod list itself is empty.
  When the list is not empty and every pod of it is filtered out (terminating, or not
  ready and ignorable), the call returns the empty connection set and no error.
\<close>

theorem newAllHostConnWithOption_empty_list:
  "(getClusterPodList r = Inr [] \<longrightarrow>
      newAllHostConnWithOption r ignorablePods = Inl (Err ''pod list empty''))
   \<and> (getClusterPodList r = Inr items \<and> items \<noteq> []
        \<and> (\<forall>q\<in>set items. IsPodTerminating q
              \<or> (\<not> IsPodRunningAndReady q \<and> GetPod (Name q) ignorablePods \<noteq> None)) \<longrightarrow>
      newAllHostConnWithOption r ignorablePods = Inr [])"
  using hostConnLoop_all_skipped [of items ignorablePods r "[]"]
  by (simp add: newAllHostConnWithOption_def)

theorem newAllHostConnWithOption_empty_list_witness:
  "newAllHostConnWithOption exampleReconciler [] = Inl (Err ''pod list empty'')
   \<and> newAllHostConnWithOption
       (exampleReconciler\<lparr>getClusterPodList :=
          Inr [examplePod ''aerocluster-0-0'' True True,
               examplePod ''aerocluster-0-1'' False False]\<rparr>)
       [examplePod ''aerocluster-0-1'' False False] = Inr []"
  using newAllHostConnWithOption_empty_list [of exampleReconciler "[]" "[]"]
    newAllHostConnWithOption_empty_list
      [of "exampleReconciler\<lparr>getClusterPodList :=
             Inr [examplePod ''aerocluster-0-0'' True True,
                  examplePod ''aerocluster-0-1'' False False]\<rparr>"
          "[examplePod ''aerocluster-0-1'' False False]"
          "[examplePod ''aerocluster-0-0'' True True, examplePod ''aerocluster-0-1'' False False]"]
  by (simp add: exampleReconciler_def examplePod_def)

subsection \<open>Membership hints\<close>

lemma append_Cons_eq_two:
  "[a, b] = pre @ pt # post \<longleftrightarrow>
     (pre = [] \<and> pt = a \<and> post = [b]) \<or> (pre = [a] \<and> pt = b \<and> post = [])"
  by (cases pre; cases "tl pre") auto

lemma append_Cons_eq_one: "[a] = pre @ pt # post \<longleftrightarrow> pre = [] \<and> pt = a \<and> post = []"
  by (cases pre) auto

text \<open>
  C9. The claim: exactly one call per configured heartbeat channel. When both channels
  are configured and the call on the TLS channel fails, \<open>tipHostname\<close> returns that
  error after the one call: the plain channel is configured and gets no call.
\<close>

theorem tipHostname_stops_at_failure:
  "heartbeatPorts
     (exampleReconciler\<lparr>TipHostname := \<lambda>asConn host port.
        if port = 3012 then Some (Err ''timeout'') else None\<rparr>) = [3012, 3002]
   \<and> tipHostname
     (exampleReconciler\<lparr>TipHostname := \<lambda>asConn host port.
        if port = 3012 then Some (Err ''timeout'') else None\<rparr>)
     (examplePod ''aerocluster-0-0'' False True) (examplePod ''aerocluster-0-1'' False True) =
     (Some (Err ''timeout''), [CallTipHostname ''aerocluster-0-1.aerocluster.svc'' 3012])"
  by (simp add: tipHostname_def heartbeatPorts_def exampleReconciler_def examplePod_def
      newAsConn_def)

text \<open>
  C9, amended. \<open>tipHostname\<close> and \<open>tipClearHostname\<close> call the peer once per
  configured heartbeat channel, the TLS channel first and the plain one second, and
  leave out a channel that is not configured without an error. When every call succeeds
  the calls are exactly those of the configured channels and the result is nil. When a
  call fails, its error is returned as it is, the call is not repeated, and no call is
  made on the channels after it.
\<close>

theorem tip_calls_until_failure:
  assumes "newAsConn r p = Inr asConn"
  shows "((\<forall>port\<in>set (heartbeatPorts r).
             TipHostname r asConn (getFQDNForPod r (Name clearPod)) port = None) \<longrightarrow>
          tipHostname r p clearPod =
            (None, map (CallTipHostname (getFQDNForPod r (Name clearPod))) (heartbeatPorts r)))
    \<and> (heartbeatPorts r = pre @ port # post
        \<and> (\<forall>q\<in>set pre. TipHostname r asConn (getFQDNForPod r (Name clearPod)) q = None)
        \<and> TipHostname r asConn (getFQDNForPod r (Name clearPod)) port = Some err \<longrightarrow>
          tipHostname r p clearPod =
            (Some err, map (CallTipHostname (getFQDNForPod r (Name clearPod))) (pre @ [port])))
    \<and> ((\<forall>port\<in>set (heartbeatPorts r).
             TipClearHostname r asConn (getFQDNForPod r clearPodName) port = None) \<longrightarrow>
          tipClearHostname r p clearPodName =
            (None, map (CallTipClearHostname (getFQDNForPod r clearPodName)) (heartbeatPorts r)))
    \<and> (heartbeatPorts r = pre @ port # post
        \<and> (\<forall>q\<in>set pre. TipClearHostname r asConn (getFQDNForPod r clearPodName) q = None)
        \<and> TipClearHostname r asConn (getFQDNForPod r clearPodName) port = Some err \<longrightarrow>
          tipClearHostname r p clearPodName =
            (Some err, map (CallTipClearHostname (getFQDNForPod r clearPodName)) (pre @ [port])))"
  using assms
  by (cases "snd (GetHeartbeatTLSNameAndPort r)"; cases "GetHeartbeatPort r")
     (auto simp: tipHostname_def tipClearHostname_def heartbeatPorts_def after_def
        append_Cons_eq_two append_Cons_eq_one)

theorem tip_calls_until_failure_witness:
  "tipHostname exampleReconciler
     (examplePod ''aerocluster-0-0'' False True) (examplePod ''aerocluster-0-1'' False True) =
     (None, [CallTipHostname ''aerocluster-0-1.aerocluster.svc'' 3012,
             CallTipHostname ''aerocluster-0-1.aerocluster.svc'' 3002])
   \<and> tipClearHostname (exampleReconciler\<lparr>GetHeartbeatTLSNameAndPort := ([], None)\<rparr>)
     (examplePod ''aerocluster-0-0'' False True) ''aerocluster-0-1'' =
     (None, [CallTipClearHostname ''aerocluster-0-1.aerocluster.svc'' 3002])
   \<and> tipClearHostname
     (exampleReconciler\<lparr>TipClearHostname := \<lambda>asConn host port.
        if port = 3002 then Some (Err ''timeout'') else None\<rparr>)
     (examplePod ''aerocluster-0-0'' False True) ''aerocluster-0-1'' =
     (Some (Err ''timeout''),
      [CallTipClearHostname ''aerocluster-0-1.aerocluster.svc'' 3012,
       CallTipClearHostname ''aerocluster-0-1.aerocluster.svc'' 3002])
   \<and> tipHostname
     (exampleReconciler\<lparr>TipHostname := \<lambda>asConn host port.
        if port = 3012 then Some (Err ''timeout'') else None\<rparr>)
     (examplePod ''aerocluster-0-0'' False True) (examplePod ''aerocluster-0-1'' False True) =
     (Some (Err ''timeout''), [CallTipHostname ''aerocluster-0-1.aerocluster.svc'' 3012])"
  using tip_calls_until_failure
      [of exampleReconciler "examplePod ''aerocluster-0-0'' False True" exampleASConn
          "examplePod ''aerocluster-0-1'' False True"]
    tip_calls_until_failure
      [of "exampleReconciler\<lparr>GetHeartbeatTLSNameAndPort := ([], None)\<rparr>"
          "examplePod ''aerocluster-0-0'' False True" exampleASConn _ _ _ _ _
          "''aerocluster-0-1''"]
    tip_calls_until_failure
      [of "exampleReconciler\<lparr>TipClearHostname := \<lambda>asConn host port.
             if port = 3002 then Some (Err ''timeout'') else None\<rparr>"
          "examplePod ''aerocluster-0-0'' False True" exampleASConn
          "examplePod ''aerocluster-0-1'' False True" "[3012]" 3002 "[]" "Err ''timeout''"
          "''aerocluster-0-1''"]
    tip_calls_until_failure
      [of "exampleReconciler\<lparr>TipHostname := \<lambda>asConn host port.
             if port = 3012 then Some (Err ''timeout'') else None\<rparr>"
          "examplePod ''aerocluster-0-0'' False True" exampleASConn
          "examplePod ''aerocluster-0-1'' False True" "[]" 3012 "[3002]" "Err ''timeout''"
          "''aerocluster-0-1''"]
  by (simp add: exampleReconciler_def examplePod_def exampleASConn_def newAsConn_def
      heartbeatPorts_def)

subsection \<open>Go's string functions\<close>

text \<open>
  \<open>Index\<close> finds an occurrence, the first one, and finds none only when there is
  none.
\<close>

lemma Index_None_iff: "Index s sep = None \<longleftrightarrow> \<not> sublist sep s"
proof (induction s)
  case Nil
  then show ?case by simp
next
  case (Cons c cs)
  then show ?case by (simp add: sublist_Cons_right)
qed

lemma Index_Some_prefix: "Index s sep = Some m \<Longrightarrow> prefix sep (drop m s)"
proof (induction s arbitrary: m)
  case Nil
  then show ?case by (simp split: if_splits)
next
  case (Cons c cs)
  then show ?case by (auto split: if_splits)
qed

lemma Index_Some_first:
  "Index s sep = Some m \<Longrightarrow> j < m \<Longrightarrow> \<not> prefix sep (drop j s)"
proof (induction s arbitrary: m j)
  case Nil
  then show ?case by (simp split: if_splits)
next
  case (Cons c cs)
  show ?case
  proof (cases "prefix sep (c # cs)")
    case True
    with Cons.prems show ?thesis by simp
  next
    case False
    with Cons.prems obtain k where k: "Index cs sep = Some k" "m = Suc k" by auto
    show ?thesis
    proof (cases j)
      case 0
      with False show ?thesis by simp
    next
      case (Suc i)
      with k Cons.prems(2) Cons.IH [of k i] show ?thesis by simp
    qed
  qed
qed

lemma Index_Some_cut:
  assumes "Index s sep = Some m"
  shows "s = take m s @ sep @ drop (m + length sep) s"
proof -
  obtain zs where zs: "drop m s = sep @ zs"
    using Index_Some_prefix [OF assms] by (auto simp: prefix_def)
  then have "drop (length sep) (drop m s) = zs" by simp
  then have "drop (m + length sep) s = zs" by (simp add: add.commute)
  with zs have "take m s @ sep @ drop (m + length sep) s = take m s @ drop m s" by simp
  then show ?thesis by simp
qed

lemma genSplit_None: "sep \<noteq> [] \<Longrightarrow> Index s sep = None \<Longrightarrow> genSplit s sep = [s]"
  by (subst genSplit.simps) simp

lemma genSplit_Some:
  "sep \<noteq> [] \<Longrightarrow> Index s sep = Some m \<Longrightarrow>
     genSplit s sep = take m s # genSplit (drop (m + length sep) s) sep"
  by (subst genSplit.simps) simp

lemma genSplit_not_Nil: "sep \<noteq> [] \<Longrightarrow> genSplit s sep \<noteq> []"
  by (cases "Index s sep") (simp_all add: genSplit_None genSplit_Some)

lemma Join_Cons: "elems \<noteq> [] \<Longrightarrow> Join (a # elems) sep = a @ sep @ Join elems sep"
  by (cases elems) simp_all

text \<open>Joining the pieces of a split with the separator gives the string back.\<close>

lemma Join_genSplit: "sep \<noteq> [] \<Longrightarrow> Join (genSplit s sep) sep = s"
proof (induction s sep rule: genSplit.induct)
  case (1 s sep)
  show ?case
  proof (cases "Index s sep")
    case None
    with "1.prems" show ?thesis by (simp add: genSplit_None)
  next
    case (Some m)
    have "Join (genSplit (drop (m + length sep) s) sep) sep = drop (m + length sep) s"
      using "1.IH" [OF "1.prems" Some] "1.prems" by simp
    then have "Join (genSplit s sep) sep = take m s @ sep @ drop (m + length sep) s"
      using "1.prems" Some by (simp add: genSplit_Some Join_Cons genSplit_not_Nil)
    then show ?thesis using Index_Some_cut [OF Some] by simp
  qed
qed

lemma Split_short_iff:
  assumes "sep \<noteq> []"
  shows "length (Split item sep) < 2 \<longleftrightarrow> \<not> sublist sep item"
proof (cases "Index item sep")
  case None
  then show ?thesis
    using assms Index_None_iff [of item sep] by (simp add: Split_def genSplit_None)
next
  case (Some m)
  then have "sublist sep item" using Index_None_iff [of item sep] by auto
  moreover have "length (genSplit (drop (m + length sep) item) sep) \<noteq> 0"
    using assms genSplit_not_Nil by simp
  ultimately show ?thesis
    using assms Some by (simp add: Split_def genSplit_Some)
qed

lemma Split_key_value:
  assumes "sep \<noteq> []" "Index item sep = Some m"
  shows "hd (Split item sep) = take m item"
    and "Join (tl (Split item sep)) sep = drop (m + length sep) item"
  using assms by (simp_all add: Split_def genSplit_Some Join_genSplit)

lemma explode_single: "of_char c < (128 :: nat) \<Longrightarrow> explode [c] = [[c]]"
  by (subst explode.simps, subst explode.simps) simp

subsection \<open>Parsing an info string\<close>

lemma parseItems_step:
  assumes "sep \<noteq> []" "Index item sep = Some m"
  shows "parseItems (item # items) sep mp =
           parseItems items sep (mp(take m item \<mapsto> drop (m + length sep) item))"
proof -
  have "sublist sep item" using assms(2) Index_None_iff [of item sep] by auto
  then have long: "\<not> length (Split item sep) < 2"
    using Split_short_iff [OF assms(1)] by simp
  have "item \<noteq> []" using assms by (cases item) auto
  then show ?thesis
    using long Split_key_value [OF assms] by (simp add: Let_def)
qed

lemma parseItems_filter:
  "parseItems items sep mp = parseItems (filter (\<lambda>item. item \<noteq> []) items) sep mp"
  by (induction items arbitrary: mp) (simp_all add: Let_def)

lemma parseItems_error_iff:
  assumes "sep \<noteq> []"
  shows "isl (parseItems items sep mp) \<longleftrightarrow>
           (\<exists>item\<in>set items. item \<noteq> [] \<and> \<not> sublist sep item)"
proof (induction items arbitrary: mp)
  case Nil
  then show ?case by simp
next
  case (Cons item items)
  then show ?case
    using Split_short_iff [OF assms, of item] by (auto simp: Let_def)
qed

text \<open>
  C10. The claim: an error is returned if and only if some item that is not empty
  contains no occurrence of the separator. With the empty separator every item contains
  it, and \<open>strings.Split\<close> cuts an item into its characters: the item \<open>a\<close> gives one
  piece, and \<open>ParseInfoIntoMap\<close> returns an error.
\<close>

theorem ParseInfoIntoMap_empty_separator:
  "ParseInfoIntoMap ''a'' '';'' [] = Inl (Err ''error parsing info item a'')
   \<and> Split ''a'' '';'' = [''a''] \<and> sublist [] ''a''"
  by (simp add: ParseInfoIntoMap_def Split_def genSplit.simps [of _ "[]"]
      genSplit.simps [of "''a''" "'';''"] explode_single)

text \<open>
  The whole result for a separator that is not empty: the error of the first item that
  is not empty and holds no separator, or else the map that starts from \<open>mp\<close> and
  takes the cut of each item that is not empty, a later item replacing an earlier one
  with the same key.
\<close>

lemma parseItems_result:
  assumes "sep \<noteq> []"
  shows "parseItems items sep mp =
           (case find (\<lambda>item. item \<noteq> [] \<and> \<not> sublist sep item) items of
              Some item \<Rightarrow> Inl (itemError item)
            | None \<Rightarrow>
                Inr (mp ++ map_of (rev (List.map_filter (firstCut sep)
                                          (filter (\<lambda>item. item \<noteq> []) items)))))"
proof (induction items arbitrary: mp)
  case Nil
  then show ?case by (simp add: map_filter_simps)
next
  case (Cons item items)
  show ?case
  proof (cases "item = []")
    case True
    with Cons.IH [of mp] show ?thesis by (simp split: option.splits)
  next
    case False
    show ?thesis
    proof (cases "Index item sep")
      case None
      then have "\<not> sublist sep item" by (simp add: Index_None_iff)
      then show ?thesis
        using False Split_short_iff [OF assms, of item]
        by (simp add: Let_def itemError_def)
    next
      case (Some m)
      then have "sublist sep item" using Index_None_iff [of item sep] by auto
      moreover have "mp ++ map_of (rev ps @ [(k, v)]) = mp(k \<mapsto> v) ++ map_of (rev ps)"
        for k v and ps :: "(string \<times> string) list"
        by (simp add: map_add_assoc [symmetric])
      ultimately show ?thesis
        using False Some parseItems_step [OF assms Some, of items mp]
          Cons.IH [of "mp(take m item \<mapsto> drop (m + length sep) item)"]
        by (simp add: firstCut_def map_filter_simps split: option.splits)
    qed
  qed
qed

text \<open>
  When the separator first occurs in the item right after \<open>k\<close>, the cut is \<open>k\<close> and
  all that follows that occurrence.
\<close>

lemma prefix_append_short:
  assumes "prefix xs (ys @ zs)" "length xs \<le> length ys"
  shows "prefix xs ys"
  using assms by (auto simp: prefix_append)

lemma Index_first_occurrence:
  assumes "sep \<noteq> []" "\<not> sublist sep (k @ butlast sep)"
  shows "Index (k @ sep @ v) sep = Some (length k)"
  using assms(2)
proof (induction k)
  case Nil
  from assms(1) obtain c cs where "sep = c # cs" by (cases sep) auto
  then show ?case by simp
next
  case (Cons a k)
  have no: "\<not> prefix sep (a # k @ sep @ v)"
  proof
    assume pre: "prefix sep (a # k @ sep @ v)"
    have "butlast sep @ last sep # v = (butlast sep @ [last sep]) @ v"
      by simp
    also have "\<dots> = sep @ v"
      by (simp only: append_butlast_last_id [OF assms(1)])
    finally have e: "butlast sep @ last sep # v = sep @ v" .
    have "prefix sep (((a # k) @ butlast sep) @ last sep # v)"
      using pre by (simp add: e)
    moreover have "length sep \<le> length ((a # k) @ butlast sep)"
      by simp
    ultimately have "prefix sep ((a # k) @ butlast sep)"
      by (rule prefix_append_short)
    with Cons.prems show False by auto
  qed
  have "\<not> sublist sep (k @ butlast sep)"
    using Cons.prems by (auto simp: sublist_Cons_right)
  then have "Index (k @ sep @ v) sep = Some (length k)"
    by (rule Cons.IH)
  with no show ?case by simp
qed

lemma firstCut_first_occurrence:
  assumes "sep \<noteq> []" "\<not> sublist sep (k @ butlast sep)"
  shows "firstCut sep (k @ sep @ v) = Some (k, v)"
  using Index_first_occurrence [OF assms, of v] by (simp add: firstCut_def)

text \<open>
  C10, amended. \<open>ParseInfoIntoMap\<close> returns the empty map and no error on the empty
  string, and the empty items of the split are skipped: the result is that of the items
  that are not empty. For a separator that is not empty, an error is returned if and
  only if some item that is not empty contains no occurrence of the separator, and it
  is the error of the first such item; otherwise the map returned holds, for each item
  that is not empty, the key before the first occurrence of the separator, mapped to
  the whole of the item after that occurrence, further separators included (a later
  item replaces an earlier one with the same key). An item \<open>k @ sep @ v\<close> in which
  the separator does not occur before the end of \<open>k\<close> is cut into \<open>k\<close> and \<open>v\<close>.
\<close>

theorem ParseInfoIntoMap_items:
  "ParseInfoIntoMap [] del sep = Inr Map.empty
   \<and> ParseInfoIntoMap str del sep =
       (if str = [] then Inr Map.empty
        else parseItems (filter (\<lambda>item. item \<noteq> []) (Split str del)) sep Map.empty)
   \<and> (sep \<noteq> [] \<longrightarrow>
        (isl (ParseInfoIntoMap str del sep) \<longleftrightarrow>
           str \<noteq> [] \<and> (\<exists>item\<in>set (Split str del). item \<noteq> [] \<and> \<not> sublist sep item)))
   \<and> (sep \<noteq> [] \<and> Index item sep = Some m \<longrightarrow>
        parseItems (item # items) sep mp =
          parseItems items sep (mp(take m item \<mapsto> drop (m + length sep) item)))
   \<and> (sep \<noteq> [] \<and> str \<noteq> [] \<longrightarrow>
        ParseInfoIntoMap str del sep =
          (case find (\<lambda>item. item \<noteq> [] \<and> \<not> sublist sep item) (Split str del) of
             Some item \<Rightarrow> Inl (itemError item)
           | None \<Rightarrow>
               Inr (map_of (rev (List.map_filter (firstCut sep)
                                   (filter (\<lambda>item. item \<noteq> []) (Split str del)))))))
   \<and> (sep \<noteq> [] \<and> \<not> sublist sep (k @ butlast sep) \<longrightarrow>
        firstCut sep (k @ sep @ v) = Some (k, v))"
proof -
  have "ParseInfoIntoMap str del sep =
       (if str = [] then Inr Map.empty
        else parseItems (filter (\<lambda>item. item \<noteq> []) (Split str del)) sep Map.empty)"
    using parseItems_filter [of "Split str del" sep Map.empty]
    by (simp add: ParseInfoIntoMap_def)
  moreover have "isl (ParseInfoIntoMap str del sep) \<longleftrightarrow>
      str \<noteq> [] \<and> (\<exists>item\<in>set (Split str del). item \<noteq> [] \<and> \<not> sublist sep item)"
    if "sep \<noteq> []"
    using parseItems_error_iff [OF that, of "Split str del" Map.empty]
    by (simp add: ParseInfoIntoMap_def Let_def)
  moreover have "parseItems (item # items) sep mp =
      parseItems items sep (mp(take m item \<mapsto> drop (m + length sep) item))"
    if "sep \<noteq> []" "Index item sep = Some m"
    using that by (rule parseItems_step)
  moreover have "ParseInfoIntoMap str del sep =
      (case find (\<lambda>item. item \<noteq> [] \<and> \<not> sublist sep item) (Split str del) of
         Some item \<Rightarrow> Inl (itemError item)
       | None \<Rightarrow>
           Inr (map_of (rev (List.map_filter (firstCut sep)
                               (filter (\<lambda>item. item \<noteq> []) (Split str del))))))"
    if "sep \<noteq> []" "str \<noteq> []"
    using that parseItems_result [OF that(1), of "Split str del" Map.empty]
    by (simp add: ParseInfoIntoMap_def Let_def split: option.splits)
  moreover have "firstCut sep (k @ sep @ v) = Some (k, v)"
    if "sep \<noteq> []" "\<not> sublist sep (k @ butlast sep)"
    using that by (rule firstCut_first_occurrence)
  moreover have "ParseInfoIntoMap [] del sep = Inr Map.empty"
    by (simp add: ParseInfoIntoMap_def)
  ultimately show ?thesis
    by blast
qed

theorem ParseInfoIntoMap_items_witness:
  "ParseInfoIntoMap ''a=b;c'' '';'' ''='' = Inl (Err ''error parsing info item c'')
   \<and> isl (ParseInfoIntoMap ''a=b;c'' '';'' ''='')
   \<and> ParseInfoIntoMap ''a=b;;c=d=e;a=z'' '';'' ''='' =
       Inr [''a'' \<mapsto> ''z'', ''c'' \<mapsto> ''d=e'']
   \<and> Index ''c=d=e'' ''='' = Some 1
   \<and> parseItems [''c=d=e''] ''='' Map.empty = Inr [''c'' \<mapsto> ''d=e'']
   \<and> firstCut ''='' ''c=d=e'' = Some (''c'', ''d=e'')"
proof -
  have split1: "Split ''a=b;;c=d=e;a=z'' '';'' = [''a=b'', [], ''c=d=e'', ''a=z'']"
    by (simp add: Split_def genSplit.simps)
  have split2: "Split ''a=b;c'' '';'' = [''a=b'', ''c'']"
    by (simp add: Split_def genSplit.simps)
  have no_sep: "\<not> sublist ''='' ''c''"
    using Index_None_iff [of "''c''" "''=''"] by simp
  have sep1: "sublist ''='' ''a=b''"
    using Index_None_iff [of "''a=b''" "''=''"] by simp
  have sep2: "sublist ''='' ''c=d=e''"
    using Index_None_iff [of "''c=d=e''" "''=''"] by simp
  have sep3: "sublist ''='' ''a=z''"
    using Index_None_iff [of "''a=z''" "''=''"] by simp
  have no_sep': "\<not> sublist ''='' (''c'' @ butlast ''='')"
    using no_sep by simp
  note items = ParseInfoIntoMap_items [of "'';''" "''=''" "''a=b;c''" "''c=d=e''" 1 "[]"
      Map.empty "''c''" "''d=e''"]
  note items' = ParseInfoIntoMap_items [of "'';''" "''=''" "''a=b;;c=d=e;a=z''"]
  have err: "isl (ParseInfoIntoMap ''a=b;c'' '';'' ''='')"
    using items [THEN conjunct2, THEN conjunct2, THEN conjunct1]
    by (simp add: split2 no_sep)
  have step: "parseItems [''c=d=e''] ''='' Map.empty =
      parseItems [] ''='' [take 1 ''c=d=e'' \<mapsto> drop (1 + length ''='') ''c=d=e'']"
    by (rule items [THEN conjunct2, THEN conjunct2, THEN conjunct2, THEN conjunct1, THEN mp])
       simp
  have one: "parseItems [''c=d=e''] ''='' Map.empty = Inr [''c'' \<mapsto> ''d=e'']"
    by (subst step) simp
  have "firstCut ''='' (''c'' @ ''='' @ ''d=e'') = Some (''c'', ''d=e'')"
    by (rule items [THEN conjunct2, THEN conjunct2, THEN conjunct2, THEN conjunct2,
          THEN conjunct2, THEN mp]) (simp add: no_sep)
  then have cut: "firstCut ''='' ''c=d=e'' = Some (''c'', ''d=e'')"
    by simp
  have failed: "ParseInfoIntoMap ''a=b;c'' '';'' ''='' = Inl (Err ''error parsing info item c'')"
    using items [THEN conjunct2, THEN conjunct2, THEN conjunct2, THEN conjunct2,
        THEN conjunct1]
    by (simp add: split2 no_sep sep1 itemError_def)
  have parsed: "ParseInfoIntoMap ''a=b;;c=d=e;a=z'' '';'' ''='' =
      Inr [''a'' \<mapsto> ''z'', ''c'' \<mapsto> ''d=e'']"
    using items' [THEN conjunct2, THEN conjunct2, THEN conjunct2, THEN conjunct2,
        THEN conjunct1]
    by (simp add: split1 sep1 sep2 sep3 firstCut_def map_filter_simps fun_upd_twist)
  show ?thesis
    by (intro conjI failed err parsed one cut) simp
qed

end
